theory Spec2Isabelle
  imports Complex_Main
begin

section \<open>REINFORCE on CartPole: the training loop of \<open>policy_gradients_pytorch.ipynb\<close>\<close>

text \<open>
  The notebook computes with Python floats and \<open>torch\<close> tensors. The model computes with
  exact reals; the one place where the floating-point computation leaves the reals, the
  quotient \<open>0 / 0\<close> inside \<open>Tensor.std\<close> and \<open>Tensor.mean\<close>, is written out as \<open>None\<close>.
\<close>

subsection \<open>Discounted returns (first loop of \<open>finish_episode\<close>)\<close>

text \<open>
  \<^verbatim>\<open>
  R = 0
  rewards = []
  for r in policy.rewards[::-1]:
      R = r + gamma * R
      rewards.insert(0, R)
  \<close>
  The loop state is the pair of the accumulator \<open>R\<close> and the list built so far.
\<close>

definition returns_step :: "real \<Rightarrow> real \<Rightarrow> real \<times> real list \<Rightarrow> real \<times> real list" where
  "returns_step gamma r = (\<lambda>(R, acc). let R' = r + gamma * R in (R', R' # acc))"

definition compute_returns :: "real \<Rightarrow> real list \<Rightarrow> real list" where
  "compute_returns gamma rs = snd (fold (returns_step gamma) (rev rs) (0, []))"

text \<open>
  The closed form the loop is compared with: the rewards of \<open>rs\<close>, the \<open>k\<close>-th one
  weighted by \<open>g ^ k\<close>.
\<close>

definition discounted_sum :: "real \<Rightarrow> real list \<Rightarrow> real" where
  "discounted_sum g rs = (\<Sum>k<length rs. rs ! k * g ^ k)"

subsection \<open>Normalisation (line 179 of the notebook)\<close>

text \<open>
  \<^verbatim>\<open>rewards = (rewards - rewards.mean()) / (rewards.std() + np.finfo(np.float32).eps)\<close>

  \<open>np.finfo(np.float32).eps\<close> is the float32 machine epsilon, 2 to the power -23 (about \<open>1.19e-7\<close>).
  \<open>Tensor.mean\<close> divides the sum by the number of elements; \<open>Tensor.std\<close> is the
  Bessel-corrected sample deviation: the squared deviations are summed and divided by
  \<open>n - 1\<close>. On floats the quotient \<open>0 / 0\<close> (the mean of no element, the deviation of
  fewer than two) is NaN; it is \<open>None\<close> here, and a tensor entry computed from a NaN is
  again \<open>None\<close>.
\<close>

definition float32_eps :: real where
  "float32_eps = 1 / 2 ^ 23"

definition mean_of :: "real list \<Rightarrow> real" where
  "mean_of xs = sum_list xs / real (length xs)"

definition var_of :: "real list \<Rightarrow> real" where
  "var_of xs = (\<Sum>x\<leftarrow>xs. (x - mean_of xs)\<^sup>2) / (real (length xs) - 1)"

definition mean :: "real list \<Rightarrow> real option" where
  "mean xs = (if xs = [] then None else Some (mean_of xs))"

definition std :: "real list \<Rightarrow> real option" where
  "std xs = (if length xs < 2 then None else Some (sqrt (var_of xs)))"

definition normalize_returns :: "real list \<Rightarrow> real option list" where
  "normalize_returns xs =
     (case (mean xs, std xs) of
        (Some m, Some s) \<Rightarrow> map (\<lambda>x. Some ((x - m) / (s + float32_eps))) xs
      | _ \<Rightarrow> map (\<lambda>x. None) xs)"

subsection \<open>The policy object and the collaborators\<close>

text \<open>
  \<open>Policy\<close> carries the network weights and the two episode buffers. A saved action is the
  stochastic node returned by \<open>probs.multinomial()\<close>: the distribution it was drawn from
  and the index drawn.
\<close>

record ('p, 'd) policy =
  params :: 'p
  saved_actions :: "('d \<times> nat) list"
  rewards :: "real list"

text \<open>
  What the notebook calls but does not define: the gym environment (\<open>'e\<close> its state,
  \<open>'o\<close> an observation), the torch random source (\<open>'g\<close>), the network (\<open>'p\<close> its
  weights, \<open>'d\<close> its output), automatic differentiation (\<open>'r\<close> a gradient) and Adam
  (\<open>'m\<close> its moments). They are taken as functions that return.
\<close>

record ('e, 'o, 'g, 'p, 'd, 'r, 'm) collaborators =
  env_seeded :: "int \<Rightarrow> 'e"
  env_reset :: "'e \<Rightarrow> 'o \<times> 'e"
  env_step :: "'e \<Rightarrow> nat \<Rightarrow> ('o \<times> real \<times> bool) \<times> 'e"
  reward_threshold :: real
  manual_seed :: "int \<Rightarrow> 'g"
  policy_init :: "'g \<Rightarrow> 'p \<times> 'g"
  forward :: "'p \<Rightarrow> 'o \<Rightarrow> 'd"
  multinomial :: "'g \<Rightarrow> 'd \<Rightarrow> nat \<times> 'g"
  backward :: "'p \<Rightarrow> (('d \<times> nat) \<times> real option) list \<Rightarrow> 'r"
  adam_init :: "'p \<Rightarrow> 'm"
  optimizer_step :: "'m \<Rightarrow> 'p \<Rightarrow> 'r \<Rightarrow> 'p \<times> 'm"

record args =
  gamma :: real
  seed :: int
  render :: bool
  log_interval :: nat

definition parse_args :: args where
  "parse_args = \<lparr>gamma = 99 / 100, seed = 543, render = False, log_interval = 10\<rparr>"

subsection \<open>\<open>select_action\<close> and \<open>finish_episode\<close>\<close>

definition select_action ::
  "('e, 'o, 'g, 'p, 'd, 'r, 'm) collaborators \<Rightarrow> 'o \<Rightarrow> ('p, 'd) policy \<Rightarrow> 'g
     \<Rightarrow> nat \<times> ('p, 'd) policy \<times> 'g" where
  "select_action X state pol g =
     (let probs = forward X (params pol) state;
          (action, g') = multinomial X g probs
      in (action, pol\<lparr>saved_actions := saved_actions pol @ [(probs, action)]\<rparr>, g'))"

text \<open>
  \<open>optimizer.zero_grad()\<close> empties the gradient accumulators, so the gradient handed to
  \<open>optimizer.step()\<close> is the one \<open>autograd.backward\<close> computes from this episode's
  reinforced actions alone.
\<close>

definition finish_episode ::
  "('e, 'o, 'g, 'p, 'd, 'r, 'm) collaborators \<Rightarrow> ('p, 'd) policy \<Rightarrow> 'm \<Rightarrow> real
     \<Rightarrow> ('p, 'd) policy \<times> 'm" where
  "finish_episode X pol opt gam =
     (let rs = normalize_returns (compute_returns gam (rewards pol));
          reinforced = zip (saved_actions pol) rs;
          grad = backward X (params pol) reinforced;
          (p', opt') = optimizer_step X opt (params pol) grad
      in (pol\<lparr>params := p', rewards := [], saved_actions := []\<rparr>, opt'))"

subsection \<open>\<open>main\<close>\<close>

text \<open>
  The local state of \<open>main\<close>. A progress message is kept as the three values it formats;
  \<open>show_state\<close> only draws, and \<open>args.render\<close> is \<open>False\<close>.
\<close>

record ('e, 'g, 'p, 'd, 'm) training =
  env :: 'e
  rng :: 'g
  policy :: "('p, 'd) policy"
  optimizer :: 'm
  running_reward :: real
  msgs :: "(nat \<times> nat \<times> real) list"

definition main_init ::
  "('e, 'o, 'g, 'p, 'd, 'r, 'm) collaborators \<Rightarrow> ('e, 'g, 'p, 'd, 'm) training" where
  "main_init X =
     (let (p, g) = policy_init X (manual_seed X (seed parse_args))
      in \<lparr>env = env_seeded X (seed parse_args), rng = g,
          policy = \<lparr>params = p, saved_actions = [], rewards = []\<rparr>,
          optimizer = adam_init X p, running_reward = 10, msgs = []\<rparr>)"

text \<open>One pass through the body of \<open>for t in range(10000)\<close>, up to the test of \<open>done\<close>.\<close>

definition timestep ::
  "('e, 'o, 'g, 'p, 'd, 'r, 'm) collaborators \<Rightarrow> 'o \<Rightarrow> ('e, 'g, 'p, 'd, 'm) training
     \<Rightarrow> ('o \<times> bool) \<times> ('e, 'g, 'p, 'd, 'm) training" where
  "timestep X state w =
     (let (action, pol', g') = select_action X state (policy w) (rng w);
          ((state', reward, done), e') = env_step X (env w) action
      in ((state', done),
          w\<lparr>env := e', rng := g', policy := pol'\<lparr>rewards := rewards pol' @ [reward]\<rparr>\<rparr>))"

text \<open>
  The loop \<open>for t in range(10000)\<close>: \<open>k\<close> is the number of passes still allowed after the
  current one, \<open>t\<close> the loop variable. The result is the value \<open>t\<close> has after the loop
  (the index of the last pass made) and the state.
\<close>

fun timestep_loop ::
  "('e, 'o, 'g, 'p, 'd, 'r, 'm) collaborators \<Rightarrow> nat \<Rightarrow> nat \<Rightarrow> 'o
     \<Rightarrow> ('e, 'g, 'p, 'd, 'm) training \<Rightarrow> nat \<times> ('e, 'g, 'p, 'd, 'm) training" where
  "timestep_loop X 0 t state w =
     (let ((state', done), w') = timestep X state w in (t, w'))"
| "timestep_loop X (Suc k) t state w =
     (let ((state', done), w') = timestep X state w
      in if done then (t, w') else timestep_loop X k (Suc t) state' w')"

definition max_steps :: nat where
  "max_steps = 10000"

text \<open>Lines 272 to 281: reset the environment and run the time steps of one episode.\<close>

definition run_episode ::
  "('e, 'o, 'g, 'p, 'd, 'r, 'm) collaborators \<Rightarrow> ('e, 'g, 'p, 'd, 'm) training
     \<Rightarrow> nat \<times> ('e, 'g, 'p, 'd, 'm) training" where
  "run_episode X w =
     (let (state, e') = env_reset X (env w)
      in timestep_loop X (max_steps - 1) 0 state (w\<lparr>env := e'\<rparr>))"

text \<open>
  The body of \<open>for i_episode in count(1)\<close>. It ends either in \<open>break\<close> (the spec's
  \<open>Converged\<close>) or by falling through to the next episode (the spec's \<open>AwaitingReset\<close>).
\<close>

datatype 'w loop_exit = Continue (loop_state: 'w) | Break (loop_state: 'w)

definition episode ::
  "('e, 'o, 'g, 'p, 'd, 'r, 'm) collaborators \<Rightarrow> nat \<Rightarrow> ('e, 'g, 'p, 'd, 'm) training
     \<Rightarrow> ('e, 'g, 'p, 'd, 'm) training loop_exit" where
  "episode X i_episode w =
     (let (t, w1) = run_episode X w;
          rr = running_reward w1 * (99 / 100) + real t * (1 / 100);
          (pol', opt') = finish_episode X (policy w1) (optimizer w1) (gamma parse_args);
          w2 = w1\<lparr>policy := pol', optimizer := opt', running_reward := rr\<rparr>;
          w3 = (if i_episode mod log_interval parse_args = 0
                then w2\<lparr>msgs := msgs w2 @ [(i_episode, t, rr)]\<rparr> else w2)
      in if reward_threshold X < rr then Break w3 else Continue w3)"

text \<open>
  \<open>count(1)\<close> never ends, so the loop of \<open>main\<close> takes fuel: \<open>None\<close> is "no \<open>break\<close>
  within \<open>n\<close> episodes".
\<close>

fun main_loop ::
  "('e, 'o, 'g, 'p, 'd, 'r, 'm) collaborators \<Rightarrow> nat \<Rightarrow> nat \<Rightarrow> ('e, 'g, 'p, 'd, 'm) training
     \<Rightarrow> ('e, 'g, 'p, 'd, 'm) training option" where
  "main_loop X 0 i_episode w = None"
| "main_loop X (Suc n) i_episode w =
     (case episode X i_episode w of
        Break w' \<Rightarrow> Some w'
      | Continue w' \<Rightarrow> main_loop X n (Suc i_episode) w')"

definition main ::
  "('e, 'o, 'g, 'p, 'd, 'r, 'm) collaborators \<Rightarrow> nat \<Rightarrow> ('e, 'g, 'p, 'd, 'm) training option" where
  "main X n = main_loop X n 1 (main_init X)"

text \<open>\<open>episode_start X i w\<close>: \<open>main\<close> enters the body of its loop with \<open>i_episode = i\<close> in state \<open>w\<close>.\<close>

inductive episode_start ::
  "('e, 'o, 'g, 'p, 'd, 'r, 'm) collaborators \<Rightarrow> nat \<Rightarrow> ('e, 'g, 'p, 'd, 'm) training \<Rightarrow> bool"
  for X where
  first: "episode_start X 1 (main_init X)"
| later: "episode_start X i w \<Longrightarrow> episode X i w = Continue w' \<Longrightarrow> episode_start X (Suc i) w'"

code_pred episode_start .

subsection \<open>A small environment to run the loop on\<close>

text \<open>
  Every episode lasts three steps of reward 1; the other collaborators count their calls.
\<close>

definition three_steps :: "(nat, nat, nat, nat, unit, unit, unit) collaborators" where
  "three_steps =
     \<lparr>env_seeded = (\<lambda>s. 0),
      env_reset = (\<lambda>e. (0, 0)),
      env_step = (\<lambda>e a. ((Suc e, 1, 3 \<le> Suc e), Suc e)),
      reward_threshold = 195,
      manual_seed = (\<lambda>s. 0),
      policy_init = (\<lambda>g. (0, g)),
      forward = (\<lambda>p s. ()),
      multinomial = (\<lambda>g d. (0, Suc g)),
      backward = (\<lambda>p xs. ()),
      adam_init = (\<lambda>p. ()),
      optimizer_step = (\<lambda>m p r. (Suc p, m))\<rparr>"

text \<open>The same environment, with a threshold the first episode already passes.\<close>

definition low_threshold :: "(nat, nat, nat, nat, unit, unit, unit) collaborators" where
  "low_threshold = three_steps\<lparr>reward_threshold := 9\<rparr>"

section \<open>Discounted returns\<close>

lemma discounted_sum_Cons: "discounted_sum g (r # rs) = r + g * discounted_sum g rs"
  unfolding discounted_sum_def
  by (simp add: sum.lessThan_Suc_shift sum_distrib_left mult_ac del: sum.lessThan_Suc)

lemma fold_returns:
  "fold (returns_step g) (rev rs) (0, []) =
     (discounted_sum g rs, map (\<lambda>i. discounted_sum g (drop i rs)) [0..<length rs])"
proof (induction rs)
  case Nil
  show ?case by (simp add: discounted_sum_def)
next
  case (Cons r rs)
  have "map (\<lambda>i. discounted_sum g (drop i (r # rs))) [0..<length (r # rs)] =
        discounted_sum g (r # rs) # map (\<lambda>i. discounted_sum g (drop i rs)) [0..<length rs]"
    by (simp add: map_upt_Suc del: upt_Suc)
  with Cons show ?case
    by (simp add: returns_step_def discounted_sum_Cons Let_def)
qed

lemma discounted_sum_drop:
  assumes "i \<le> length rs"
  shows "discounted_sum g (drop i rs) = (\<Sum>k = i..<length rs. rs ! k * g ^ (k - i))"
proof -
  have "discounted_sum g (drop i rs) = (\<Sum>k<length rs - i. rs ! (i + k) * g ^ k)"
    using assms by (simp add: discounted_sum_def)
  also have "\<dots> = (\<Sum>k = i..<length rs. rs ! k * g ^ (k - i))"
    by (rule sum.reindex_bij_witness[where i = "\<lambda>k. k - i" and j = "\<lambda>k. i + k"]) auto
  finally show ?thesis .
qed

lemma length_compute_returns: "length (compute_returns g rs) = length rs"
  by (simp add: compute_returns_def fold_returns)

text \<open>
  Claim C1. For every reward sequence and every discount factor (in particular every
  \<open>g\<close> between 0 and 1), the reverse accumulation \<open>R = r + gamma * R\<close> of
  \<open>finish_episode\<close> yields a list as long as the rewards, in the order of the time
  steps, whose entry \<open>i\<close> is the sum over \<open>k\<close> from \<open>i\<close> to the end of
  \<open>r\<^sub>k * g ^ (k - i)\<close>; for rewards \<open>[1, 1, 1]\<close> and \<open>g = 0.5\<close> it is
  \<open>[1.75, 1.5, 1.0]\<close>.
\<close>

theorem compute_returns_correct:
  "length (compute_returns g rs) = length rs \<and>
   (\<forall>i < length rs. compute_returns g rs ! i = (\<Sum>k = i..<length rs. rs ! k * g ^ (k - i))) \<and>
   compute_returns (1 / 2) [1, 1, 1] = [7 / 4, 3 / 2, 1]"
proof -
  have "compute_returns (1 / 2) [1, 1, 1] = [7 / 4, 3 / 2, 1]"
    by (simp add: compute_returns_def returns_step_def Let_def)
  then show ?thesis
    by (simp add: compute_returns_def fold_returns discounted_sum_drop)
qed

theorem compute_returns_correct_witness:
  "(0::nat) < length [1, 1, 1 :: real] \<and>
   compute_returns (1 / 2) [1, 1, 1] ! 0
     = (\<Sum>k = 0..<length [1, 1, 1 :: real]. [1, 1, 1] ! k * (1 / 2) ^ (k - 0))"
  using compute_returns_correct[of "1 / 2" "[1, 1, 1]"] by simp

section \<open>Normalisation\<close>

lemma float32_eps_pos: "0 < float32_eps"
  by (simp add: float32_eps_def)

lemma sum_list_divide:
  "(\<Sum>x\<leftarrow>xs. f x / c) = (\<Sum>x\<leftarrow>xs. f x) / (c::real)"
  by (induction xs) (simp_all add: add_divide_distrib)

lemma mean_of_shift_scale:
  assumes "xs \<noteq> []"
  shows "mean_of (map (\<lambda>x. (x - mean_of xs) / c) xs) = 0"
proof -
  have n: "real (length xs) \<noteq> 0" using assms by simp
  have "(\<Sum>x\<leftarrow>xs. (x - mean_of xs) / c) = (\<Sum>x\<leftarrow>xs. x - mean_of xs) / c"
    by (rule sum_list_divide)
  also have "(\<Sum>x\<leftarrow>xs. x - mean_of xs) = sum_list xs - real (length xs) * mean_of xs"
    by (simp add: sum_list_subtractf sum_list_triv)
  also have "\<dots> = 0"
    using n by (simp add: mean_of_def)
  finally show ?thesis by (simp add: mean_of_def)
qed

lemma var_of_shift_scale:
  assumes "xs \<noteq> []"
  shows "var_of (map (\<lambda>x. (x - mean_of xs) / c) xs) = var_of xs / c\<^sup>2"
proof -
  let ?ys = "map (\<lambda>x. (x - mean_of xs) / c) xs"
  have m: "mean_of ?ys = 0" by (rule mean_of_shift_scale[OF assms])
  have "(\<Sum>y\<leftarrow>?ys. (y - mean_of ?ys)\<^sup>2) = (\<Sum>x\<leftarrow>xs. (x - mean_of xs)\<^sup>2 / c\<^sup>2)"
    unfolding m by (simp add: o_def power_divide)
  also have "\<dots> = (\<Sum>x\<leftarrow>xs. (x - mean_of xs)\<^sup>2) / c\<^sup>2"
    by (rule sum_list_divide)
  finally show ?thesis by (simp add: var_of_def)
qed

lemma var_of_nonneg: "2 \<le> length xs \<Longrightarrow> 0 \<le> var_of xs"
  unfolding var_of_def by (intro divide_nonneg_nonneg sum_list_nonneg) auto

text \<open>
  Claim C2, as the code has it. For every returns sequence of at least two elements the
  normalisation step outputs \<open>(returns - mean) / (std + eps)\<close>, where \<open>eps\<close> is the
  float32 machine epsilon \<open>1 / 2 ^ 23\<close> (about \<open>1.19e-7\<close>) and \<open>std\<close> is the
  Bessel-corrected deviation \<open>s\<close>; in exact arithmetic the output has mean 0 and
  deviation \<open>s / (s + eps)\<close>, which is below 1 and close to 1 only when \<open>s\<close> is large
  against \<open>eps\<close>.
\<close>

theorem normalize_returns_moments:
  assumes "2 \<le> length xs"
  shows "float32_eps = 1 / 2 ^ 23 \<and>
         mean xs = Some (mean_of xs) \<and> std xs = Some (sqrt (var_of xs)) \<and>
         normalize_returns xs
           = map (\<lambda>x. Some ((x - mean_of xs) / (sqrt (var_of xs) + float32_eps))) xs \<and>
         mean (map (\<lambda>x. (x - mean_of xs) / (sqrt (var_of xs) + float32_eps)) xs) = Some 0 \<and>
         std (map (\<lambda>x. (x - mean_of xs) / (sqrt (var_of xs) + float32_eps)) xs)
           = Some (sqrt (var_of xs) / (sqrt (var_of xs) + float32_eps))"
proof -
  let ?c = "sqrt (var_of xs) + float32_eps"
  from assms have ne: "xs \<noteq> []" by auto
  have c: "0 < ?c"
    using var_of_nonneg[OF assms] float32_eps_pos by (simp add: add_nonneg_pos)
  have "sqrt (var_of xs / ?c\<^sup>2) = sqrt (var_of xs) / ?c"
    using c by (simp add: real_sqrt_divide)
  then show ?thesis
    using assms ne
    by (simp add: mean_def std_def normalize_returns_def mean_of_shift_scale var_of_shift_scale
        float32_eps_def[symmetric] float32_eps_def)
qed

theorem normalize_returns_moments_witness:
  "2 \<le> length [0, 1, 2 :: real] \<and>
   normalize_returns [0, 1, 2]
     = [Some (- 1 / (1 + float32_eps)), Some 0, Some (1 / (1 + float32_eps))] \<and>
   mean [- 1 / (1 + float32_eps), 0, 1 / (1 + float32_eps)] = Some 0 \<and>
   std [- 1 / (1 + float32_eps), 0, 1 / (1 + float32_eps)] = Some (1 / (1 + float32_eps))"
proof -
  have m: "mean_of [0, 1, 2] = 1" by (simp add: mean_of_def)
  have v: "var_of [0, 1, 2] = 1" by (simp add: var_of_def m)
  show ?thesis
    using normalize_returns_moments[of "[0, 1, 2]"] by (simp add: m v)
qed

text \<open>
  The claim as written fails twice. The constant is above \<open>1e-7\<close>, not of order
  \<open>1e-8\<close>; and the returns \<open>[0, eps, 2 * eps]\<close> (two or more, not constant) are
  normalised to \<open>[-1/2, 0, 1/2]\<close>, whose deviation is \<open>1/2\<close>.
\<close>

theorem normalize_returns_unit_std_counterexample:
  "normalize_returns [0, float32_eps, 2 * float32_eps] = [Some (- 1 / 2), Some 0, Some (1 / 2)] \<and>
   std [- 1 / 2, 0, 1 / 2] = Some (1 / 2) \<and>
   1 / 10 ^ 7 < float32_eps"
proof -
  have e: "0 < float32_eps" by (rule float32_eps_pos)
  have m: "mean_of [0, float32_eps, 2 * float32_eps] = float32_eps"
    by (simp add: mean_of_def)
  have v: "var_of [0, float32_eps, 2 * float32_eps] = float32_eps\<^sup>2"
    by (simp add: var_of_def m power2_eq_square)
  have s: "sqrt (float32_eps\<^sup>2) = float32_eps" using e by simp
  have n: "normalize_returns [0, float32_eps, 2 * float32_eps]
             = [Some (- 1 / 2), Some 0, Some (1 / 2)]"
    using e by (simp add: normalize_returns_def mean_def std_def m v s)
  have v': "var_of [- 1 / 2, 0, 1 / 2] = (1 / 2)\<^sup>2"
    by (simp add: var_of_def mean_of_def power2_eq_square)
  have s': "std [- 1 / 2, 0, 1 / 2] = Some (1 / 2)"
    unfolding std_def v' by simp
  have "1 / 10 ^ 7 < float32_eps" by (simp add: float32_eps_def)
  with n s' show ?thesis by simp
qed

text \<open>
  Claim C3 says that the single return of an episode of one step is normalised to 0,
  with no NaN. In the code the return of a one-step episode is the reward itself, the
  deviation of that one-element tensor is \<open>0 / 0\<close>, and the normalised return is NaN:
  \<open>eps\<close> is added to a deviation that is already NaN.
\<close>

theorem single_step_episode_nan:
  "compute_returns g [r] = [r] \<and> std [r] = None \<and>
   normalize_returns (compute_returns g [r]) = [None]"
  by (simp add: compute_returns_def returns_step_def normalize_returns_def std_def mean_def)

section \<open>The episode loop\<close>

lemma select_action_policy:
  "select_action X s pol g = (a, pol', g') \<Longrightarrow>
     params pol' = params pol \<and> rewards pol' = rewards pol \<and>
     length (saved_actions pol') = Suc (length (saved_actions pol))"
  by (auto simp: select_action_def Let_def split: prod.splits)

lemma timestep_effect:
  assumes "timestep X s w = (r, w')"
  shows "params (policy w') = params (policy w) \<and>
         length (saved_actions (policy w')) = Suc (length (saved_actions (policy w))) \<and>
         length (rewards (policy w')) = Suc (length (rewards (policy w))) \<and>
         optimizer w' = optimizer w \<and> running_reward w' = running_reward w \<and> msgs w' = msgs w"
  using assms
  by (auto simp: timestep_def Let_def split: prod.splits dest: select_action_policy)

text \<open>
  What the loop over the time steps does to the state: it makes \<open>t' - t + 1\<close> passes,
  each adds one saved action and one reward, and nothing else of the policy, the
  optimizer or the running reward moves.
\<close>

lemma timestep_loop_effect:
  "timestep_loop X k t s w = (t', w') \<Longrightarrow>
     t \<le> t' \<and> t' \<le> t + k \<and>
     params (policy w') = params (policy w) \<and>
     length (saved_actions (policy w')) = length (saved_actions (policy w)) + Suc (t' - t) \<and>
     length (rewards (policy w')) = length (rewards (policy w)) + Suc (t' - t) \<and>
     optimizer w' = optimizer w \<and> running_reward w' = running_reward w \<and> msgs w' = msgs w"
proof (induction k arbitrary: t s w)
  case 0
  then show ?case
    by (auto simp: Let_def split: prod.splits dest: timestep_effect)
next
  case (Suc k)
  obtain s1 d w1 where step: "timestep X s w = ((s1, d), w1)"
    by (metis surj_pair)
  note eff = timestep_effect[OF step]
  show ?case
  proof (cases d)
    case True
    with Suc.prems step eff show ?thesis by simp
  next
    case False
    with Suc.prems step have "timestep_loop X k (Suc t) s1 w1 = (t', w')" by simp
    from Suc.IH[OF this] eff show ?thesis by (simp; arith)
  qed
qed

lemma run_episode_effect:
  "run_episode X w = (t, w') \<Longrightarrow>
     t < max_steps \<and>
     params (policy w') = params (policy w) \<and>
     length (saved_actions (policy w')) = length (saved_actions (policy w)) + Suc t \<and>
     length (rewards (policy w')) = length (rewards (policy w)) + Suc t \<and>
     optimizer w' = optimizer w \<and> running_reward w' = running_reward w \<and> msgs w' = msgs w"
  by (auto simp: run_episode_def max_steps_def split: prod.splits dest!: timestep_loop_effect)

lemma finish_episode_clears:
  "finish_episode X pol opt g = (pol', opt') \<Longrightarrow> saved_actions pol' = [] \<and> rewards pol' = []"
  by (auto simp: finish_episode_def Let_def split: prod.splits)

lemma episode_clears:
  "saved_actions (policy (loop_state (episode X i w))) = [] \<and>
   rewards (policy (loop_state (episode X i w))) = []"
  by (auto simp: episode_def Let_def split: prod.splits dest: finish_episode_clears)

lemma main_init_buffers:
  "saved_actions (policy (main_init X)) = [] \<and> rewards (policy (main_init X)) = []"
  by (simp add: main_init_def split: prod.splits)

lemma episode_start_buffers:
  "episode_start X i w \<Longrightarrow> saved_actions (policy w) = [] \<and> rewards (policy w) = []"
proof (induction rule: episode_start.induct)
  case first
  show ?case by (rule main_init_buffers)
next
  case (later i w w')
  from episode_clears[of X i w] later.hyps(2) show ?case by simp
qed

text \<open>When \<open>main\<close> leaves its loop, the running reward is above the threshold.\<close>

lemma main_loop_break:
  "main_loop X n i w = Some w' \<Longrightarrow> reward_threshold X < running_reward w'"
proof (induction n arbitrary: i w)
  case 0
  then show ?case by simp
next
  case (Suc n)
  show ?case
  proof (cases "episode X i w")
    case (Continue w1)
    with Suc.prems have "main_loop X n (Suc i) w1 = Some w'" by simp
    then show ?thesis by (rule Suc.IH)
  next
    case (Break w1)
    with Suc.prems have "w1 = w'" by simp
    moreover from Break have "reward_threshold X < running_reward w1"
      by (auto simp: episode_def Let_def split: prod.splits if_splits)
    ultimately show ?thesis by simp
  qed
qed

text \<open>
  How \<open>main\<close> with \<open>n\<close> episodes of fuel relates to the state in which episode
  \<open>i\<close> starts: the first \<open>i - 1\<close> episodes fell through, so the loop is at episode
  \<open>i\<close> with the rest of the fuel.
\<close>

lemma episode_start_pos: "episode_start X i w \<Longrightarrow> 0 < i"
  by (induction rule: episode_start.induct) simp_all

lemma main_loop_reach:
  "episode_start X i w \<Longrightarrow> main_loop X (i - 1 + n) 1 (main_init X) = main_loop X n i w"
proof (induction arbitrary: n rule: episode_start.induct)
  case first
  show ?case by simp
next
  case (later i w w')
  from later.hyps(1) have pos: "0 < i" by (rule episode_start_pos)
  then have "Suc i - 1 + n = i - 1 + Suc n" by simp
  then have "main_loop X (Suc i - 1 + n) 1 (main_init X) = main_loop X (Suc n) i w"
    using later.IH[of "Suc n"] by simp
  also have "\<dots> = main_loop X n (Suc i) w'"
    using later.hyps(2) by simp
  finally show ?case .
qed

lemma main_at_episode:
  assumes "episode_start X i w"
  shows "main X (i + n) =
           (case episode X i w of Break w' \<Rightarrow> Some w' | Continue w' \<Rightarrow> main_loop X n (Suc i) w')"
proof -
  from assms have "0 < i" by (rule episode_start_pos)
  then have "i + n = i - 1 + Suc n" by simp
  then have "main X (i + n) = main_loop X (Suc n) i w"
    using main_loop_reach[OF assms, of "Suc n"] by (simp add: main_def)
  then show ?thesis by simp
qed

lemma main_before_episode:
  "episode_start X i w \<Longrightarrow> n < i \<Longrightarrow> main X n = None"
proof (induction arbitrary: n rule: episode_start.induct)
  case first
  then show ?case by (simp add: main_def)
next
  case (later i w w')
  show ?case
  proof (cases "n < i")
    case True
    then show ?thesis by (rule later.IH)
  next
    case False
    with later.prems have "n = i" by simp
    then show ?thesis
      using main_at_episode[OF later.hyps(1), of 0] later.hyps(2) by simp
  qed
qed

subsection \<open>The loop on the three-step environment\<close>

lemma timestep_loop_unfold:
  "timestep_loop X k t s w =
     (let ((s', done), w') = timestep X s w
      in if done \<or> k = 0 then (t, w') else timestep_loop X (k - 1) (Suc t) s' w')"
  by (cases k) (auto simp: Let_def split: prod.splits)

lemma run_three_steps:
  "run_episode three_steps w =
     (2, w\<lparr>env := 3, rng := Suc (Suc (Suc (rng w))),
           policy := (policy w)\<lparr>saved_actions := saved_actions (policy w) @ [((), 0), ((), 0), ((), 0)],
                                rewards := rewards (policy w) @ [1, 1, 1]\<rparr>\<rparr>)"
  by (simp add: run_episode_def max_steps_def three_steps_def timestep_loop_unfold timestep_def
      select_action_def numeral_2_eq_2)

lemma run_episode_threshold:
  "run_episode (X\<lparr>reward_threshold := c\<rparr>) w = run_episode X w"
proof -
  have step: "\<And>s v. timestep (X\<lparr>reward_threshold := c\<rparr>) s v = timestep X s v"
    by (simp add: timestep_def select_action_def)
  have "\<And>k t s v. timestep_loop (X\<lparr>reward_threshold := c\<rparr>) k t s v = timestep_loop X k t s v"
  proof -
    fix k t s v
    show "timestep_loop (X\<lparr>reward_threshold := c\<rparr>) k t s v = timestep_loop X k t s v"
      by (induction k arbitrary: t s v) (auto simp: step split: prod.splits)
  qed
  then show ?thesis by (simp add: run_episode_def)
qed

subsection \<open>The claims about the loop\<close>

text \<open>
  Claim C4. Every time step appends exactly one action record (in \<open>select_action\<close>) and
  exactly one reward (in the loop of \<open>main\<close>), so whenever \<open>main\<close> has run the time steps
  of an episode and is about to call \<open>finish_episode\<close>, the number of saved actions
  equals the number of rewards (both are the number of time steps, \<open>t + 1\<close>).
\<close>

theorem buffer_parity:
  assumes "episode_start X i w"
  shows "length (saved_actions (policy (snd (timestep X s v))))
           = Suc (length (saved_actions (policy v))) \<and>
         length (rewards (policy (snd (timestep X s v)))) = Suc (length (rewards (policy v))) \<and>
         length (saved_actions (policy (snd (run_episode X w)))) = Suc (fst (run_episode X w)) \<and>
         length (rewards (policy (snd (run_episode X w)))) = Suc (fst (run_episode X w)) \<and>
         length (saved_actions (policy (snd (run_episode X w))))
           = length (rewards (policy (snd (run_episode X w))))"
proof -
  have "length (saved_actions (policy (snd (timestep X s v))))
           = Suc (length (saved_actions (policy v))) \<and>
        length (rewards (policy (snd (timestep X s v)))) = Suc (length (rewards (policy v)))"
    using timestep_effect[of X s v] by (cases "timestep X s v") simp
  moreover have "length (saved_actions (policy (snd (run_episode X w)))) = Suc (fst (run_episode X w)) \<and>
        length (rewards (policy (snd (run_episode X w)))) = Suc (fst (run_episode X w))"
    using episode_start_buffers[OF assms] run_episode_effect[of X w]
    by (cases "run_episode X w") simp
  ultimately show ?thesis by simp
qed

theorem buffer_parity_witness:
  "episode_start three_steps 1 (main_init three_steps) \<and>
   length (saved_actions (policy (snd (run_episode three_steps (main_init three_steps))))) = 3 \<and>
   length (rewards (policy (snd (run_episode three_steps (main_init three_steps))))) = 3"
proof -
  have start: "episode_start three_steps 1 (main_init three_steps)"
    by (rule episode_start.first)
  from buffer_parity[OF start] start show ?thesis
    by (simp add: run_three_steps)
qed

text \<open>
  Claim C5. Within one pass through the body of the loop of \<open>main\<close> (from one
  \<open>env.reset()\<close> to the next) the parameters of the policy change at most once: the time
  steps leave them as they are, whatever their number, and \<open>finish_episode\<close> replaces
  them by the result of one optimizer step on the gradient of the whole episode's
  saved actions, each reinforced with its normalised return.
\<close>

theorem single_update_per_episode:
  "params (policy (snd (timestep_loop X k t s w))) = params (policy w) \<and>
   params (policy (snd (run_episode X w))) = params (policy w) \<and>
   params (policy (loop_state (episode X i w))) =
     fst (optimizer_step X (optimizer w) (params (policy w))
           (backward X (params (policy w))
             (zip (saved_actions (policy (snd (run_episode X w))))
                  (normalize_returns (compute_returns (gamma parse_args)
                     (rewards (policy (snd (run_episode X w)))))))))"
proof -
  have a: "params (policy (snd (timestep_loop X k t s w))) = params (policy w)"
    using timestep_loop_effect[of X k t s w] by (cases "timestep_loop X k t s w") simp
  have b: "params (policy (snd (run_episode X w))) = params (policy w) \<and>
           optimizer (snd (run_episode X w)) = optimizer w"
    using run_episode_effect[of X w] by (cases "run_episode X w") simp
  have c: "params (policy (loop_state (episode X i w))) =
     fst (optimizer_step X (optimizer (snd (run_episode X w)))
           (params (policy (snd (run_episode X w))))
           (backward X (params (policy (snd (run_episode X w))))
             (zip (saved_actions (policy (snd (run_episode X w))))
                  (normalize_returns (compute_returns (gamma parse_args)
                     (rewards (policy (snd (run_episode X w)))))))))"
    by (simp add: episode_def finish_episode_def Let_def case_prod_beta)
  from a b c show ?thesis by simp
qed

text \<open>
  Claim C6 says that the running reward is updated with the length of the episode. The
  code updates it with \<open>t\<close>, the index of the last time step, which is the length
  minus one: on the three-step environment the first episode has three rewards,
  \<open>t\<close> is 2, and the running reward goes from 10 to \<open>10 * 0.99 + 2 * 0.01\<close>, not to
  \<open>10 * 0.99 + 3 * 0.01\<close>.
\<close>

theorem running_reward_off_by_one:
  "running_reward (main_init three_steps) = 10 \<and>
   length (rewards (policy (snd (run_episode three_steps (main_init three_steps))))) = 3 \<and>
   fst (run_episode three_steps (main_init three_steps)) = 2 \<and>
   running_reward (loop_state (episode three_steps 1 (main_init three_steps)))
     = 10 * (99 / 100) + 2 * (1 / 100) \<and>
   running_reward (loop_state (episode three_steps 1 (main_init three_steps)))
     \<noteq> 10 * (99 / 100) + 3 * (1 / 100)"
proof -
  have i: "running_reward (main_init three_steps) = 10"
    by (simp add: main_init_def split: prod.splits)
  have "running_reward (loop_state (episode three_steps 1 (main_init three_steps)))
     = 10 * (99 / 100) + 2 * (1 / 100)"
    by (simp add: episode_def Let_def run_three_steps i case_prod_beta)
  with i show ?thesis by (simp add: run_three_steps main_init_buffers)
qed

text \<open>
  Claim C7. The loop of \<open>main\<close> halts if and only if the running reward strictly
  exceeds the threshold of the environment, and the test is made at the end of an
  episode only. The body of the loop ends in \<open>break\<close> exactly when the running reward it
  has just computed is above the threshold; the running reward is not touched by the
  time steps, and the state the test is made in has been through \<open>finish_episode\<close>
  (both buffers are empty). For the loop itself: if \<open>main\<close> starts episode \<open>i\<close> in state
  \<open>w\<close>, then it has not returned within fewer than \<open>i\<close> episodes; with \<open>i\<close> episodes
  of fuel it returns exactly when the running reward after episode \<open>i\<close> is above the
  threshold, and it then returns the state at the end of that episode, whatever fuel is
  left; otherwise it goes on with episode \<open>i + 1\<close>.
\<close>

theorem stop_condition:
  "(case episode X i w of
      Break w' \<Rightarrow> reward_threshold X < running_reward w'
    | Continue w' \<Rightarrow> \<not> reward_threshold X < running_reward w') \<and>
   running_reward (loop_state (episode X i w))
     = running_reward w * (99 / 100) + real (fst (run_episode X w)) * (1 / 100) \<and>
   running_reward (snd (timestep_loop X k t s w)) = running_reward w \<and>
   running_reward (snd (run_episode X w)) = running_reward w \<and>
   saved_actions (policy (loop_state (episode X i w))) = [] \<and>
   rewards (policy (loop_state (episode X i w))) = [] \<and>
   (episode_start X i w \<longrightarrow>
      (\<forall>n<i. main X n = None) \<and>
      main X i = (case episode X i w of Break w' \<Rightarrow> Some w' | Continue w' \<Rightarrow> None) \<and>
      (\<forall>n. main X (i + n) =
         (case episode X i w of
            Break w' \<Rightarrow> Some w'
          | Continue w' \<Rightarrow> main_loop X n (Suc i) w')) \<and>
      ((\<exists>w'. main X i = Some w')
         \<longleftrightarrow> reward_threshold X < running_reward (loop_state (episode X i w))))"
proof -
  have a: "(case episode X i w of
      Break w' \<Rightarrow> reward_threshold X < running_reward w'
    | Continue w' \<Rightarrow> \<not> reward_threshold X < running_reward w')"
    by (simp add: episode_def Let_def case_prod_beta)
  have b: "running_reward (snd (run_episode X w)) = running_reward w"
    using run_episode_effect[of X w] by (cases "run_episode X w") simp
  have c: "running_reward (loop_state (episode X i w))
     = running_reward (snd (run_episode X w)) * (99 / 100)
         + real (fst (run_episode X w)) * (1 / 100)"
    by (simp add: episode_def Let_def case_prod_beta)
  have d: "running_reward (snd (timestep_loop X k t s w)) = running_reward w"
    using timestep_loop_effect[of X k t s w] by (cases "timestep_loop X k t s w") simp
  have e: "(\<forall>n<i. main X n = None) \<and>
      main X i = (case episode X i w of Break w' \<Rightarrow> Some w' | Continue w' \<Rightarrow> None) \<and>
      (\<forall>n. main X (i + n) =
         (case episode X i w of
            Break w' \<Rightarrow> Some w'
          | Continue w' \<Rightarrow> main_loop X n (Suc i) w')) \<and>
      ((\<exists>w'. main X i = Some w')
         \<longleftrightarrow> reward_threshold X < running_reward (loop_state (episode X i w)))"
    if start: "episode_start X i w"
  proof -
    have e1: "\<forall>n<i. main X n = None"
      using main_before_episode[OF start] by blast
    have e3: "\<forall>n. main X (i + n) =
         (case episode X i w of
            Break w' \<Rightarrow> Some w'
          | Continue w' \<Rightarrow> main_loop X n (Suc i) w')"
      using main_at_episode[OF start] by blast
    have e2: "main X i = (case episode X i w of Break w' \<Rightarrow> Some w' | Continue w' \<Rightarrow> None)"
      using main_at_episode[OF start, of 0] by (simp split: loop_exit.splits)
    have e4: "(\<exists>w'. main X i = Some w')
         \<longleftrightarrow> reward_threshold X < running_reward (loop_state (episode X i w))"
      using a e2 by (cases "episode X i w") simp_all
    from e1 e2 e3 e4 show ?thesis by blast
  qed
  from b c have c': "running_reward (loop_state (episode X i w))
     = running_reward w * (99 / 100) + real (fst (run_episode X w)) * (1 / 100)"
    by simp
  note f = episode_clears[of X i w]
  from a c' d b f e show ?thesis by blast
qed

theorem stop_condition_witness:
  "episode_start three_steps 1 (main_init three_steps) \<and>
   episode three_steps 1 (main_init three_steps)
     = Continue (loop_state (episode three_steps 1 (main_init three_steps))) \<and>
   \<not> reward_threshold three_steps
       < running_reward (loop_state (episode three_steps 1 (main_init three_steps))) \<and>
   main three_steps 1 = None \<and>
   episode_start low_threshold 1 (main_init low_threshold) \<and>
   reward_threshold low_threshold
       < running_reward (loop_state (episode low_threshold 1 (main_init low_threshold))) \<and>
   main low_threshold 0 = None \<and>
   main low_threshold 1 = Some (loop_state (episode low_threshold 1 (main_init low_threshold)))"
proof -
  have thr: "reward_threshold three_steps = 195"
    by (simp add: three_steps_def)
  have thr': "reward_threshold low_threshold = 9"
    by (simp add: low_threshold_def)
  have t: "fst (run_episode three_steps (main_init three_steps)) = 2"
    by (simp add: run_three_steps)
  have t': "fst (run_episode low_threshold (main_init low_threshold)) = 2"
    by (simp add: low_threshold_def run_episode_threshold run_three_steps)
  have r: "running_reward (main_init three_steps) = 10"
    by (simp add: main_init_def split: prod.splits)
  have r': "running_reward (main_init low_threshold) = 10"
    by (simp add: main_init_def split: prod.splits)
  have s: "episode_start three_steps 1 (main_init three_steps)"
    by (rule episode_start.first)
  have s': "episode_start low_threshold 1 (main_init low_threshold)"
    by (rule episode_start.first)
  have A: "episode three_steps 1 (main_init three_steps)
     = Continue (loop_state (episode three_steps 1 (main_init three_steps))) \<and>
   \<not> reward_threshold three_steps
       < running_reward (loop_state (episode three_steps 1 (main_init three_steps))) \<and>
   main three_steps 1 = None"
    using stop_condition[where X = three_steps and i = 1 and w = "main_init three_steps"
        and k = 0 and t = 0 and s = 0] s t r
    by (cases "episode three_steps 1 (main_init three_steps)") (auto simp: thr)
  have B: "reward_threshold low_threshold
       < running_reward (loop_state (episode low_threshold 1 (main_init low_threshold))) \<and>
   main low_threshold 0 = None \<and>
   main low_threshold 1 = Some (loop_state (episode low_threshold 1 (main_init low_threshold)))"
    using stop_condition[where X = low_threshold and i = 1 and w = "main_init low_threshold"
        and k = 0 and t = 0 and s = 0] s' t' r'
    by (cases "episode low_threshold 1 (main_init low_threshold)") (auto simp: thr')
  from A B s s' show ?thesis by blast
qed

text \<open>
  Claim C10. Whenever \<open>main\<close> calls \<open>finish_episode\<close>, the reward buffer is not empty:
  the first pass of the loop over the time steps is always made, and it appends its
  reward before \<open>done\<close> is tested. So the returns are not empty either, and their mean
  is taken over at least one element.
\<close>

theorem reward_buffer_nonempty:
  "rewards (policy (snd (run_episode X w))) \<noteq> [] \<and>
   compute_returns g (rewards (policy (snd (run_episode X w)))) \<noteq> [] \<and>
   mean (compute_returns g (rewards (policy (snd (run_episode X w))))) \<noteq> None"
proof -
  have len: "0 < length (rewards (policy (snd (run_episode X w))))"
    using run_episode_effect[of X w] by (cases "run_episode X w") simp
  then have "0 < length (compute_returns g (rewards (policy (snd (run_episode X w)))))"
    by (simp add: length_compute_returns)
  with len show ?thesis by (simp add: mean_def)
qed

end
